theory Spec2Isabelle
  imports Main
begin

section \<open>Python strings\<close>

text \<open>
  A Python \<open>str\<close> is modelled as a HOL \<open>string\<close>, a list of 8-bit characters read as
  the code points 0 to 255 (the Latin-1 range of Unicode). The character classes below
  are Python's classes restricted to that range: the only decimal digits there are
  \<open>0\<close> to \<open>9\<close>, and the white space characters are the code points 9 to 13, 28 to 32,
  133 and 160.
\<close>

definition is_digit :: "char \<Rightarrow> bool" where
  "is_digit c = (c \<in> set ''0123456789'')"

definition is_space :: "char \<Rightarrow> bool" where
  "is_space c = (c \<in> set [CHR 0x09, CHR 0x0A, CHR 0x0B, CHR 0x0C, CHR 0x0D,
                          CHR 0x1C, CHR 0x1D, CHR 0x1E, CHR 0x1F, CHR 0x20,
                          CHR 0x85, CHR 0xA0])"

text \<open>
  The value of one decimal digit, and \<open>int(s)\<close> on a string of decimal digits: the
  only strings the program converts are groups matched by \<open>\d+\<close> or \<open>\d{4}\<close>, and a
  file name is too short to reach the number of digits at which \<open>int\<close> raises.
\<close>

definition digit_val :: "char \<Rightarrow> int" where
  "digit_val c = int (length (takeWhile (\<lambda>d. d \<noteq> c) ''0123456789''))"

definition py_int :: "string \<Rightarrow> int" where
  "py_int s = foldl (\<lambda>a c. 10 * a + digit_val c) 0 s"

text \<open>\<open>s.strip()\<close>: white space removed at both ends.\<close>

definition strip :: "string \<Rightarrow> string" where
  "strip s = rev (dropWhile is_space (rev (dropWhile is_space s)))"

text \<open>\<open>s.lower()\<close>: the upper-case letters of the range are \<open>A\<close> to \<open>Z\<close> and the code
  points 192 to 222 without 215; each maps to the code point 32 above it.\<close>

definition lower_char :: "char \<Rightarrow> char" where
  "lower_char c =
     (let n = (of_char c :: nat)
      in if 65 \<le> n \<and> n \<le> 90 then char_of (n + 32)
         else if 192 \<le> n \<and> n \<le> 222 \<and> n \<noteq> 215 then char_of (n + 32)
         else c)"

definition lower :: "string \<Rightarrow> string" where
  "lower s = map lower_char s"

definition endswith :: "string \<Rightarrow> string \<Rightarrow> bool" where
  "endswith s suf = (length suf \<le> length s \<and> drop (length s - length suf) s = suf)"

text \<open>\<open>s.rfind(c)\<close>: the highest index of \<open>c\<close> in \<open>s\<close>, or \<open>-1\<close>.\<close>

definition rfind :: "string \<Rightarrow> char \<Rightarrow> int" where
  "rfind p c =
     (if c \<in> set p then int (length p) - 1 - int (length (takeWhile (\<lambda>x. x \<noteq> c) (rev p)))
      else - 1)"

text \<open>
  \<open>os.path.splitext\<close> (POSIX): the extension starts at the last dot of the last path
  component, unless only dots precede it in that component.
\<close>

definition splitext :: "string \<Rightarrow> string \<times> string" where
  "splitext p =
     (let sepIndex = rfind p (CHR ''/'');
          dotIndex = rfind p (CHR ''.'')
      in if dotIndex > sepIndex \<and>
            list_ex (\<lambda>c. c \<noteq> CHR ''.'')
              (take (nat (dotIndex - (sepIndex + 1))) (drop (nat (sepIndex + 1)) p))
         then (take (nat dotIndex) p, drop (nat dotIndex) p)
         else (p, []))"

section \<open>Regular expressions\<close>

text \<open>
  The patterns of the program are sequences of quantified character classes. A token
  \<open>Rep c lo hi g\<close> is the class \<open>c\<close> repeated at least \<open>lo\<close> and at most \<open>hi\<close> times
  (\<open>None\<close>: unbounded), greedy if \<open>g\<close> and lazy otherwise; a literal character is a
  class of its own, repeated once.
\<close>

datatype cls = Digit | Space | Dot | Lit char

fun cls_match :: "cls \<Rightarrow> char \<Rightarrow> bool" where
  "cls_match Digit c = is_digit c"
| "cls_match Space c = is_space c"
| "cls_match Dot c = (c \<noteq> CHR 0x0A)"
| "cls_match (Lit x) c = (c = x)"

datatype tok = Rep cls nat "nat option" bool

definition plus :: "cls \<Rightarrow> tok" where
  "plus c = Rep c 1 None True"

definition star :: "cls \<Rightarrow> tok" where
  "star c = Rep c 0 None True"

definition plus_lazy :: "cls \<Rightarrow> tok" where
  "plus_lazy c = Rep c 1 None False"

definition exactly :: "nat \<Rightarrow> cls \<Rightarrow> tok" where
  "exactly n c = Rep c n (Some n) True"

definition lit :: "char \<Rightarrow> tok" where
  "lit x = Rep (Lit x) 1 (Some 1) True"

text \<open>
  The repetition counts a token may take at the start of \<open>s\<close>, in the order the
  backtracking matcher tries them: a greedy token from the longest run down to its
  minimum, a lazy token from its minimum up.
\<close>

fun counts :: "tok \<Rightarrow> string \<Rightarrow> nat list" where
  "counts (Rep c lo hi g) s =
     (let run = length (takeWhile (cls_match c) s);
          mx = (case hi of None \<Rightarrow> run | Some h \<Rightarrow> min h run);
          up = [lo ..< Suc mx]
      in if g then rev up else up)"

fun first_some :: "('a \<Rightarrow> 'b option) \<Rightarrow> 'a list \<Rightarrow> 'b option" where
  "first_some f [] = None"
| "first_some f (x # xs) = (case f x of Some y \<Rightarrow> Some y | None \<Rightarrow> first_some f xs)"

text \<open>
  \<open>re.match\<close>: the pattern is matched at the start of the string, the first match in
  backtracking order wins. The result lists the substring each token matched, in order;
  a group of the pattern is the element at the index of its token.
\<close>

primrec rmatch :: "tok list \<Rightarrow> string \<Rightarrow> string list option" where
  "rmatch [] s = Some []"
| "rmatch (t # ts) s =
     first_some (\<lambda>n. map_option ((#) (take n s)) (rmatch ts (drop n s))) (counts t s)"

section \<open>The filename parser\<close>

text \<open>\<open>(\d+)\.\s*(.+?)\s+by\s+(.+?),\s*(\d{4})\<close>: the groups are the tokens 0, 3, 8
  and 11.\<close>

definition primary_pattern :: "tok list" where
  "primary_pattern =
     [plus Digit, lit (CHR ''.''), star Space, plus_lazy Dot, plus Space,
      lit (CHR ''b''), lit (CHR ''y''), plus Space, plus_lazy Dot, lit (CHR '',''),
      star Space, exactly 4 Digit]"

text \<open>\<open>(\d+)\.\s*(.+?),\s*(\d{4})\<close>: the groups are the tokens 0, 3 and 6.\<close>

definition fallback_pattern :: "tok list" where
  "fallback_pattern =
     [plus Digit, lit (CHR ''.''), star Space, plus_lazy Dot, lit (CHR '',''),
      star Space, exactly 4 Digit]"

text \<open>
  What the program prints, one constructor for each \<open>print\<close> statement with the values
  it formats into the line.
\<close>

datatype msg =
    Warning_could_not_parse string
  | Error_directory_not_found string
  | Hint_run_from_repo_root
  | Found_images nat string
  | Parsing_filenames
  | Progress int "string option" string int
  | Generated string
  | Total_images int
  | Next_steps

text \<open>
  \<open>parse_filename\<close> returns \<open>(number, title, artist, year)\<close>, or four times \<open>None\<close>
  after a warning: \<open>None\<close> here. The console is passed through.
\<close>

definition parse_filename ::
  "string \<Rightarrow> msg list \<Rightarrow> (int \<times> string option \<times> string \<times> int) option \<times> msg list" where
  "parse_filename fname con =
     (let name = fst (splitext fname)
      in case rmatch primary_pattern name of
           Some m \<Rightarrow>
             (Some (py_int (m ! 0), Some (strip (m ! 3)), strip (m ! 8), py_int (m ! 11)), con)
         | None \<Rightarrow>
             (case rmatch fallback_pattern name of
                Some m \<Rightarrow> (Some (py_int (m ! 0), None, strip (m ! 3), py_int (m ! 6)), con)
              | None \<Rightarrow> (None, con @ [Warning_could_not_parse fname])))"

section \<open>The manifest\<close>

record entry =
  e_id :: int
  e_filename :: string
  e_artist :: string
  e_year :: int
  e_url :: string
  e_title :: "string option"

record manifest =
  version :: string
  total_images :: int
  images :: "entry list"

text \<open>The truth value of \<open>title\<close>, which is \<open>None\<close> or a string.\<close>

fun truthy :: "string option \<Rightarrow> bool" where
  "truthy None = False"
| "truthy (Some s) = (s \<noteq> [])"

definition base_url :: string where
  "base_url = ''https://raw.githubusercontent.com/brandonbunt/art365/main/images/''"

text \<open>The loop over the sorted image files: the manifest and the console are the state.\<close>

fun process_files :: "string list \<Rightarrow> manifest \<times> msg list \<Rightarrow> manifest \<times> msg list" where
  "process_files [] st = st"
| "process_files (fname # rest) (mf, con) =
     (case parse_filename fname con of
        (None, con') \<Rightarrow> process_files rest (mf, con')
      | (Some (number, title, artist, year), con') \<Rightarrow>
          (let ent = \<lparr>e_id = number, e_filename = fname, e_artist = artist, e_year = year,
                      e_url = base_url @ fname, e_title = None\<rparr>;
               ent' = (if truthy title then ent\<lparr>e_title := title\<rparr> else ent);
               title' = (if truthy title then title else None)
           in process_files rest
                (mf\<lparr>images := images mf @ [ent']\<rparr>,
                 con' @ [Progress number title' artist year])))"

text \<open>The image files are those whose lower-cased name ends in one of three extensions.\<close>

definition is_image :: "string \<Rightarrow> bool" where
  "is_image f = list_ex (endswith (lower f)) [''.jpg'', ''.jpeg'', ''.png'']"

text \<open>The sort key: the number matched by \<open>(\d+)\<close> at the start of the file name, or 999.\<close>

definition number_key :: "string \<Rightarrow> int" where
  "number_key x = (case rmatch [plus Digit] x of Some m \<Rightarrow> py_int (m ! 0) | None \<Rightarrow> 999)"

text \<open>
  The file system maps a path to a directory with its listing (in the order
  \<open>os.listdir\<close> returns it), to a file holding a manifest as JSON, or to another file.
  Paths are compared as strings; permissions are not modelled.
\<close>

datatype node = Dir "string list" | Json_file manifest | Other_file

record world =
  fs :: "string \<Rightarrow> node option"
  console :: "msg list"

datatype os_error = NotADirectoryError | IsADirectoryError

definition output_file :: string where
  "output_file = ''manifest.json''"

fun is_dir :: "node option \<Rightarrow> bool" where
  "is_dir (Some (Dir l)) = True"
| "is_dir n = False"

text \<open>
  \<open>generate_manifest\<close>: an unhandled exception is \<open>Inl\<close>, with the world it leaves
  behind. \<open>list.sort\<close> is stable, as \<open>sort_key\<close> is.
\<close>

definition generate_manifest :: "string \<Rightarrow> world \<Rightarrow> (os_error \<times> world) + world" where
  "generate_manifest images_dir w =
     (case fs w images_dir of
        None \<Rightarrow>
          Inr (w\<lparr>console := console w @
                   [Error_directory_not_found images_dir, Hint_run_from_repo_root]\<rparr>)
      | Some Other_file \<Rightarrow> Inl (NotADirectoryError, w)
      | Some (Json_file x) \<Rightarrow> Inl (NotADirectoryError, w)
      | Some (Dir listing) \<Rightarrow>
          (let mf0 = \<lparr>version = ''1.0'', total_images = 0, images = []\<rparr>;
               image_files = sort_key number_key (filter is_image listing);
               con1 = console w @ [Found_images (length image_files) images_dir,
                                   Parsing_filenames];
               (mf1, con2) = process_files image_files (mf0, con1);
               mf2 = mf1\<lparr>total_images := int (length (images mf1))\<rparr>
           in if is_dir (fs w output_file)
              then Inl (IsADirectoryError, w\<lparr>console := con2\<rparr>)
              else Inr (w\<lparr>fs := (fs w)(output_file \<mapsto> Json_file mf2),
                          console := con2 @ [Generated output_file,
                                             Total_images (total_images mf2),
                                             Next_steps]\<rparr>)))"

section \<open>Derived notions\<close>

text \<open>What a token's match looks like: characters of its class, within its bounds.\<close>

fun seg_ok :: "tok \<Rightarrow> string \<Rightarrow> bool" where
  "seg_ok (Rep c lo hi g) seg =
     (list_all (cls_match c) seg \<and> lo \<le> length seg \<and>
      (case hi of None \<Rightarrow> True | Some h \<Rightarrow> length seg \<le> h))"

text \<open>
  The entry the loop appends for a file and the lines it prints for it; the sorted list
  of image files; the manifest built from a listing.
\<close>

definition file_entry :: "string \<Rightarrow> entry option" where
  "file_entry f =
     (case fst (parse_filename f []) of
        None \<Rightarrow> None
      | Some (number, title, artist, year) \<Rightarrow>
          Some \<lparr>e_id = number, e_filename = f, e_artist = artist, e_year = year,
                e_url = base_url @ f, e_title = (if truthy title then title else None)\<rparr>)"

definition file_msgs :: "string \<Rightarrow> msg list" where
  "file_msgs f =
     (case fst (parse_filename f []) of
        None \<Rightarrow> [Warning_could_not_parse f]
      | Some (number, title, artist, year) \<Rightarrow>
          [Progress number (if truthy title then title else None) artist year])"

definition sorted_files :: "string list \<Rightarrow> string list" where
  "sorted_files listing = sort_key number_key (filter is_image listing)"

definition built_manifest :: "string list \<Rightarrow> manifest" where
  "built_manifest listing =
     \<lparr>version = ''1.0'',
      total_images = int (length (List.map_filter file_entry (sorted_files listing))),
      images = List.map_filter file_entry (sorted_files listing)\<rparr>"

text \<open>The manifest a run has left in the output file, if the run returned.\<close>

definition written_manifest :: "(os_error \<times> world) + world \<Rightarrow> manifest option" where
  "written_manifest r =
     (case r of
        Inl x \<Rightarrow> None
      | Inr w' \<Rightarrow> (case fs w' output_file of Some (Json_file mf) \<Rightarrow> Some mf | _ \<Rightarrow> None))"

text \<open>A world whose only node is the directory \<open>images\<close> with the given listing.\<close>

definition images_world :: "string list \<Rightarrow> world" where
  "images_world listing = \<lparr>fs = [''images'' \<mapsto> Dir listing], console = []\<rparr>"

section \<open>Properties of the matcher\<close>

lemma first_some_SomeD:
  "first_some f xs = Some y \<Longrightarrow> \<exists>x \<in> set xs. f x = Some y"
  by (induction xs) (auto split: option.splits)

lemma first_some_None_iff:
  "first_some f xs = None \<longleftrightarrow> (\<forall>x \<in> set xs. f x = None)"
  by (induction xs) (auto split: option.splits)

lemma counts_seg_ok:
  assumes "n \<in> set (counts t s)"
  shows "seg_ok t (take n s)" and "n \<le> length s"
proof -
  obtain c lo hi g where t: "t = Rep c lo hi g" by (cases t)
  let ?run = "length (takeWhile (cls_match c) s)"
  from assms t have n: "lo \<le> n" "n \<le> ?run" "case hi of None \<Rightarrow> True | Some h \<Rightarrow> n \<le> h"
    by (auto simp: Let_def split: if_splits option.splits)
  have run: "?run \<le> length s" by (rule length_takeWhile_le)
  with n show "n \<le> length s" by simp
  have "take n s = take n (takeWhile (cls_match c) s)"
    using n(2) by (metis takeWhile_eq_take take_take min.absorb1)
  then have "list_all (cls_match c) (take n s)"
    by (metis list_all_iff set_takeWhileD in_set_takeD)
  moreover have "length (take n s) = n" using n(2) run by simp
  ultimately show "seg_ok t (take n s)" using n t by (auto split: option.splits)
qed

lemma rmatch_sound:
  "rmatch ts s = Some m \<Longrightarrow> list_all2 seg_ok ts m \<and> (\<exists>r. s = concat m @ r)"
proof (induction ts arbitrary: s m)
  case Nil
  then show ?case by simp
next
  case (Cons t ts)
  from Cons.prems obtain n where n: "n \<in> set (counts t s)"
    and "map_option ((#) (take n s)) (rmatch ts (drop n s)) = Some m"
    by (auto dest: first_some_SomeD)
  then obtain m' where m': "rmatch ts (drop n s) = Some m'" "m = take n s # m'"
    by auto
  from Cons.IH [OF m'(1)] obtain r where "list_all2 seg_ok ts m'" "drop n s = concat m' @ r"
    by auto
  moreover have "s = take n s @ drop n s" by simp
  ultimately show ?case using counts_seg_ok(1) [OF n] m'(2)
    by (metis append.assoc concat.simps(2) list_all2_Cons)
qed

lemma seg_ok_lit: "seg_ok (lit x) seg \<longleftrightarrow> seg = [x]"
  by (cases seg; cases "tl seg") (auto simp: lit_def)

lemma seg_ok_plus: "seg_ok (plus c) seg \<longleftrightarrow> seg \<noteq> [] \<and> list_all (cls_match c) seg"
  by (cases seg) (auto simp: plus_def)

lemma seg_ok_plus_lazy: "seg_ok (plus_lazy c) seg \<longleftrightarrow> seg \<noteq> [] \<and> list_all (cls_match c) seg"
  by (cases seg) (auto simp: plus_lazy_def)

lemma seg_ok_star: "seg_ok (star c) seg \<longleftrightarrow> list_all (cls_match c) seg"
  by (auto simp: star_def)

lemma seg_ok_exactly: "seg_ok (exactly n c) seg \<longleftrightarrow> length seg = n \<and> list_all (cls_match c) seg"
  by (auto simp: exactly_def)

lemmas seg_ok_simps = seg_ok_lit seg_ok_plus seg_ok_plus_lazy seg_ok_star seg_ok_exactly

lemma primary_sound:
  assumes "rmatch primary_pattern s = Some m"
  shows "\<exists>d w1 t w2 w3 a w4 y r.
           m = [d, ''.'', w1, t, w2, ''b'', ''y'', w3, a, '','', w4, y] \<and>
           s = d @ ''.'' @ w1 @ t @ w2 @ ''by'' @ w3 @ a @ '','' @ w4 @ y @ r \<and>
           d \<noteq> [] \<and> list_all is_digit d \<and> list_all is_space w1 \<and>
           t \<noteq> [] \<and> w2 \<noteq> [] \<and> list_all is_space w2 \<and>
           w3 \<noteq> [] \<and> list_all is_space w3 \<and> a \<noteq> [] \<and>
           list_all is_space w4 \<and> length y = 4 \<and> list_all is_digit y"
proof -
  from rmatch_sound [OF assms] obtain r where
    ok: "list_all2 seg_ok primary_pattern m" and s: "s = concat m @ r" by blast
  from ok obtain d p w1 t w2 b y' w3 a cm w4 y where
    m: "m = [d, p, w1, t, w2, b, y', w3, a, cm, w4, y]"
    and segs: "seg_ok (plus Digit) d" "seg_ok (lit (CHR ''.'')) p" "seg_ok (star Space) w1"
      "seg_ok (plus_lazy Dot) t" "seg_ok (plus Space) w2" "seg_ok (lit (CHR ''b'')) b"
      "seg_ok (lit (CHR ''y'')) y'" "seg_ok (plus Space) w3" "seg_ok (plus_lazy Dot) a"
      "seg_ok (lit (CHR '','')) cm" "seg_ok (star Space) w4" "seg_ok (exactly 4 Digit) y"
    unfolding primary_pattern_def by (auto simp only: list_all2_Cons1 list_all2_Nil)
  from segs show ?thesis unfolding m using s [unfolded m]
    by (simp add: seg_ok_simps list_all_iff)
qed

lemma fallback_sound:
  assumes "rmatch fallback_pattern s = Some m"
  shows "\<exists>d w1 a w4 y r.
           m = [d, ''.'', w1, a, '','', w4, y] \<and>
           s = d @ ''.'' @ w1 @ a @ '','' @ w4 @ y @ r \<and>
           d \<noteq> [] \<and> list_all is_digit d \<and> list_all is_space w1 \<and> a \<noteq> [] \<and>
           list_all is_space w4 \<and> length y = 4 \<and> list_all is_digit y"
proof -
  from rmatch_sound [OF assms] obtain r where
    ok: "list_all2 seg_ok fallback_pattern m" and s: "s = concat m @ r" by blast
  from ok obtain d p w1 a cm w4 y where
    m: "m = [d, p, w1, a, cm, w4, y]"
    and segs: "seg_ok (plus Digit) d" "seg_ok (lit (CHR ''.'')) p" "seg_ok (star Space) w1"
      "seg_ok (plus_lazy Dot) a"
      "seg_ok (lit (CHR '','')) cm" "seg_ok (star Space) w4" "seg_ok (exactly 4 Digit) y"
    unfolding fallback_pattern_def by (auto simp only: list_all2_Cons1 list_all2_Nil)
  from segs show ?thesis unfolding m using s [unfolded m]
    by (simp add: seg_ok_simps list_all_iff)
qed

lemma digit_val_range: "is_digit c \<Longrightarrow> 0 \<le> digit_val c \<and> digit_val c \<le> 9"
  by (auto simp: is_digit_def digit_val_def)

lemma foldl_digits_bounds:
  "list_all is_digit ds \<Longrightarrow> 0 \<le> a \<Longrightarrow>
   0 \<le> foldl (\<lambda>a c. 10 * a + digit_val c) a ds \<and>
   foldl (\<lambda>a c. 10 * a + digit_val c) a ds < (a + 1) * 10 ^ length ds"
proof (induction ds arbitrary: a)
  case Nil
  then show ?case by simp
next
  case (Cons c ds)
  then have c: "0 \<le> digit_val c" "digit_val c \<le> 9" and ds: "list_all is_digit ds"
    using digit_val_range by auto
  define b where "b = 10 * a + digit_val c"
  define r where "r = foldl (\<lambda>a c. 10 * a + digit_val c) b ds"
  have b: "0 \<le> b" using c Cons.prems by (simp add: b_def)
  from Cons.IH [OF ds b] have r: "0 \<le> r" "r < (b + 1) * 10 ^ length ds"
    by (simp_all add: r_def)
  have "(b + 1) * 10 ^ length ds \<le> (10 * (a + 1)) * 10 ^ length ds"
    using c by (intro mult_right_mono) (auto simp: b_def)
  also have "\<dots> = (a + 1) * 10 ^ length (c # ds)" by simp
  finally have "r < (a + 1) * 10 ^ length (c # ds)" using r(2) by linarith
  with r(1) show ?case by (simp add: r_def b_def)
qed

lemma py_int_bounds:
  "list_all is_digit ds \<Longrightarrow> 0 \<le> py_int ds \<and> py_int ds < 10 ^ length ds"
  using foldl_digits_bounds [of ds 0] by (simp add: py_int_def)

lemma dropWhile_all: "list_all P xs \<Longrightarrow> dropWhile P xs = []"
  by (induction xs) auto

lemma strip_all_space: "list_all is_space t \<Longrightarrow> strip t = []"
  by (simp add: strip_def dropWhile_all)

lemma splitext_append: "fst (splitext p) @ snd (splitext p) = p"
  by (simp add: splitext_def Let_def)

lemma rmatch_digits:
  "rmatch [plus Digit] x =
     (if takeWhile is_digit x = [] then None else Some [takeWhile is_digit x])"
proof (cases "takeWhile is_digit x = []")
  case True
  have "is_digit = cls_match Digit" by (rule ext) simp
  with True show ?thesis by (simp add: plus_def)
next
  case False
  define run where "run = length (takeWhile is_digit x)"
  have run: "0 < run" using False by (simp add: run_def)
  have tk: "take run x = takeWhile is_digit x"
    unfolding run_def by (rule takeWhile_eq_take [symmetric])
  have "is_digit = cls_match Digit" by (rule ext) simp
  then have "counts (plus Digit) x = rev [1 ..< Suc run]"
    by (simp add: plus_def run_def Let_def)
  also have "\<dots> = run # rev [1 ..< run]" using run by (simp add: upt_Suc)
  finally show ?thesis using False tk by simp
qed

lemma takeWhile_digits_dot:
  "list_all is_digit d \<Longrightarrow> takeWhile is_digit (d @ CHR ''.'' # r) = d"
  by (induction d) (auto simp: is_digit_def)

section \<open>Properties of the loop and of the run\<close>

lemma parse_filename_console:
  "parse_filename f con = (fst (parse_filename f []), con @ snd (parse_filename f []))"
  by (simp add: parse_filename_def Let_def split: option.splits)

lemma parse_filename_None_console:
  "fst (parse_filename f []) = None \<Longrightarrow> snd (parse_filename f []) = [Warning_could_not_parse f]"
  by (simp add: parse_filename_def Let_def split: option.splits)

lemma parse_filename_Some_console:
  "fst (parse_filename f []) = Some r \<Longrightarrow> snd (parse_filename f []) = []"
  by (auto simp add: parse_filename_def Let_def split: option.splits)

lemma process_files_eq:
  "process_files xs (mf, con) =
     (mf\<lparr>images := images mf @ List.map_filter file_entry xs\<rparr>,
      con @ concat (map file_msgs xs))"
proof (induction xs arbitrary: mf con)
  case Nil
  then show ?case by simp
next
  case (Cons f xs)
  show ?case
  proof (cases "fst (parse_filename f [])")
    case None
    then have "parse_filename f con = (None, con @ [Warning_could_not_parse f])"
      using parse_filename_console [of f con] parse_filename_None_console [of f] by simp
    then show ?thesis using None Cons.IH
      by (simp add: file_entry_def file_msgs_def)
  next
    case (Some r)
    obtain number title artist year where r: "r = (number, title, artist, year)"
      by (cases r) auto
    have "parse_filename f con = (Some (number, title, artist, year), con)"
      using parse_filename_console [of f con] parse_filename_Some_console [OF Some] Some r
      by simp
    then show ?thesis using Some r Cons.IH
      by (simp add: file_entry_def file_msgs_def)
  qed
qed

lemma generate_manifest_Dir:
  assumes "fs w d = Some (Dir listing)" and "\<not> is_dir (fs w output_file)"
  shows "generate_manifest d w =
     Inr (w\<lparr>fs := (fs w)(output_file \<mapsto> Json_file (built_manifest listing)),
            console := console w @
              [Found_images (length (sorted_files listing)) d, Parsing_filenames] @
              concat (map file_msgs (sorted_files listing)) @
              [Generated output_file,
               Total_images (int (length (images (built_manifest listing)))),
               Next_steps]\<rparr>)"
  using assms
  by (simp add: generate_manifest_def process_files_eq built_manifest_def sorted_files_def Let_def)

lemma generate_manifest_Inr_Dir:
  assumes "generate_manifest d w = Inr w'" and "fs w d \<noteq> None"
  shows "\<exists>listing. fs w d = Some (Dir listing) \<and> \<not> is_dir (fs w output_file)"
  using assms
  by (auto simp add: generate_manifest_def Let_def split: option.splits node.splits prod.splits if_splits)

lemma parse_number:
  assumes "fst (parse_filename f con) = Some (number, title, artist, year)"
  shows "takeWhile is_digit f \<noteq> [] \<and> number = py_int (takeWhile is_digit f)"
proof -
  define name where "name = fst (splitext f)"
  have f: "f = name @ snd (splitext f)" by (simp add: name_def splitext_append)
  have "\<exists>d r. d \<noteq> [] \<and> list_all is_digit d \<and> name = d @ CHR ''.'' # r \<and> number = py_int d"
  proof (cases "rmatch primary_pattern name")
    case (Some m)
    then have "number = py_int (m ! 0)"
      using assms by (simp add: parse_filename_def name_def)
    with primary_sound [OF Some] show ?thesis by auto
  next
    case None
    then obtain m where m: "rmatch fallback_pattern name = Some m"
      using assms by (auto simp: parse_filename_def name_def split: option.splits)
    then have "number = py_int (m ! 0)"
      using assms None by (simp add: parse_filename_def name_def)
    with fallback_sound [OF m] show ?thesis by auto
  qed
  then obtain d r where d: "d \<noteq> []" "list_all is_digit d" "name = d @ CHR ''.'' # r"
    "number = py_int d" by blast
  have "f = d @ CHR ''.'' # (r @ snd (splitext f))" using f d(3) by simp
  then have "takeWhile is_digit f = d"
    using takeWhile_digits_dot [OF d(2)] by metis
  with d show ?thesis by simp
qed

lemma number_key_digits:
  "takeWhile is_digit f \<noteq> [] \<Longrightarrow> number_key f = py_int (takeWhile is_digit f)"
  unfolding number_key_def rmatch_digits by simp

lemma file_entry_Some:
  assumes "file_entry f = Some e"
  shows "e_filename e = f" and "e_id e = number_key f" and "takeWhile is_digit f \<noteq> []"
proof -
  from assms obtain number title artist year where
    p: "fst (parse_filename f []) = Some (number, title, artist, year)"
    and e: "e_filename e = f" "e_id e = number"
    by (auto simp: file_entry_def split: option.splits)
  from parse_number [OF p] e number_key_digits [of f]
  show "e_filename e = f" and "e_id e = number_key f" and "takeWhile is_digit f \<noteq> []"
    by simp_all
qed

lemma map_filter_filenames:
  "map e_filename (List.map_filter file_entry xs) = filter (\<lambda>f. file_entry f \<noteq> None) xs"
  by (induction xs) (auto simp: file_entry_Some(1) split: option.splits)

lemma map_filter_ids:
  "map e_id (List.map_filter file_entry xs) =
     map number_key (filter (\<lambda>f. file_entry f \<noteq> None) xs)"
  by (induction xs) (auto simp: file_entry_Some(2) split: option.splits)

lemma written_manifest_Dir:
  assumes "fs w d \<noteq> None" and "written_manifest (generate_manifest d w) = Some mf"
  shows "\<exists>listing. fs w d = Some (Dir listing) \<and> mf = built_manifest listing"
proof -
  from assms(2) obtain w' where w': "generate_manifest d w = Inr w'"
    by (auto simp: written_manifest_def split: sum.splits)
  from generate_manifest_Inr_Dir [OF w' assms(1)] obtain listing where
    l: "fs w d = Some (Dir listing)" "\<not> is_dir (fs w output_file)" by blast
  from assms(2) show ?thesis
    unfolding generate_manifest_Dir [OF l] using l(1)
    by (simp add: written_manifest_def)
qed

lemma sorted_files_sorted: "sorted (map number_key (sorted_files listing))"
  by (simp add: sorted_files_def)

lemma built_manifest_keys:
  "map (number_key \<circ> e_filename) (images (built_manifest listing)) =
     map number_key (filter (\<lambda>f. file_entry f \<noteq> None) (sorted_files listing))"
  using map_filter_filenames [of "sorted_files listing"]
  by (simp add: built_manifest_def flip: map_map)

lemma file_entry_primary:
  assumes "rmatch primary_pattern (fst (splitext f)) = Some m"
  shows "file_entry f =
     Some \<lparr>e_id = py_int (m ! 0), e_filename = f, e_artist = strip (m ! 8),
           e_year = py_int (m ! 11), e_url = base_url @ f,
           e_title = (if strip (m ! 3) = [] then None else Some (strip (m ! 3)))\<rparr>"
  using assms by (simp add: file_entry_def parse_filename_def)

lemma file_entry_fallback:
  assumes "rmatch primary_pattern (fst (splitext f)) = None"
    and "rmatch fallback_pattern (fst (splitext f)) = Some m"
  shows "file_entry f =
     Some \<lparr>e_id = py_int (m ! 0), e_filename = f, e_artist = strip (m ! 3),
           e_year = py_int (m ! 6), e_url = base_url @ f, e_title = None\<rparr>"
  using assms by (simp add: file_entry_def parse_filename_def)

lemma file_entry_neither:
  assumes "rmatch primary_pattern (fst (splitext f)) = None"
    and "rmatch fallback_pattern (fst (splitext f)) = None"
  shows "file_entry f = None" and "file_msgs f = [Warning_could_not_parse f]"
  using assms by (simp_all add: file_entry_def file_msgs_def parse_filename_def)

lemma map_filter_append:
  "List.map_filter f (xs @ ys) = List.map_filter f xs @ List.map_filter f ys"
  by (simp add: map_filter_def)

lemma distinct_ids:
  assumes "distinct (map number_key
             (filter (\<lambda>f. takeWhile is_digit f \<noteq> []) (filter is_image listing)))"
  shows "distinct (map e_id (images (built_manifest listing)))"
proof -
  let ?P = "\<lambda>f. file_entry f \<noteq> None"
  let ?Q = "\<lambda>f. takeWhile is_digit f \<noteq> []"
  let ?ys = "filter is_image listing"
  have "?P f \<Longrightarrow> ?Q f" for f
    using file_entry_Some(3) [of f] by auto
  then have PQ: "filter ?P xs = filter ?P (filter ?Q xs)" for xs
    by (auto intro: filter_cong)
  from assms have "distinct (map number_key (sort_key number_key (filter ?Q ?ys)))"
    by (simp add: distinct_map)
  then have "distinct (map number_key (filter ?Q (sort_key number_key ?ys)))"
    by (simp add: filter_sort)
  then have "distinct (map number_key (filter ?P (filter ?Q (sort_key number_key ?ys))))"
    by (rule distinct_map_filter)
  then have "distinct (map number_key (filter ?P (sorted_files listing)))"
    using PQ [of "sort_key number_key ?ys"] by (simp add: sorted_files_def)
  then show ?thesis by (simp add: built_manifest_def map_filter_ids)
qed

section \<open>The claims\<close>

text \<open>
  C1, as the code has it. The entries of the manifest are in non-decreasing order of the
  leading number of their file names (two files may carry the same number, so the order
  is not strict), and every entry's file name has a leading number. In the sorted list
  of image files, the order in which they are processed, a file without a leading
  number has the key 999: every file after it has a key of at least 999, so it comes
  after all files whose number is below 999.
\<close>

theorem ordered_by_number:
  assumes "fs w images_dir = Some (Dir listing)"
    and "written_manifest (generate_manifest images_dir w) = Some mf"
  shows "sorted (map (number_key \<circ> e_filename) (images mf)) \<and>
         (\<forall>e \<in> set (images mf). rmatch [plus Digit] (e_filename e) \<noteq> None) \<and>
         (\<forall>i j. i < j \<and> j < length (sort_key number_key (filter is_image listing)) \<and>
                rmatch [plus Digit] (sort_key number_key (filter is_image listing) ! i) = None
            \<longrightarrow> 999 \<le> number_key (sort_key number_key (filter is_image listing) ! j))"
proof -
  from assms have mf: "mf = built_manifest listing"
    using written_manifest_Dir [of w images_dir mf] by auto
  have 1: "sorted (map (number_key \<circ> e_filename) (images mf))"
    unfolding mf built_manifest_keys
    by (rule sorted_filter) (rule sorted_files_sorted)
  have 2: "rmatch [plus Digit] (e_filename e) \<noteq> None" if "e \<in> set (images mf)" for e
  proof -
    from that obtain f where "file_entry f = Some e"
      by (auto simp: mf built_manifest_def map_filter_def)
    from file_entry_Some(1,3) [OF this] show ?thesis unfolding rmatch_digits by simp
  qed
  have 3: "999 \<le> number_key (sorted_files listing ! j)"
    if "i < j" "j < length (sorted_files listing)"
      "rmatch [plus Digit] (sorted_files listing ! i) = None" for i j
  proof -
    have "map number_key (sorted_files listing) ! i \<le> map number_key (sorted_files listing) ! j"
      using that(1,2) sorted_files_sorted [of listing]
      by (intro sorted_nth_mono) auto
    then show ?thesis using that by (simp add: number_key_def)
  qed
  from 1 2 3 show ?thesis by (auto simp: sorted_files_def)
qed

theorem ordered_by_number_witness:
  "fs (images_world [''cover.jpg'', ''1000. A by B, 1900.jpg'', ''2. C by D, 1901.png''])
      ''images''
     = Some (Dir [''cover.jpg'', ''1000. A by B, 1900.jpg'', ''2. C by D, 1901.png'']) \<and>
   map_option (map e_filename \<circ> images)
     (written_manifest (generate_manifest ''images''
        (images_world [''cover.jpg'', ''1000. A by B, 1900.jpg'', ''2. C by D, 1901.png''])))
     = Some [''2. C by D, 1901.png'', ''1000. A by B, 1900.jpg''] \<and>
   sorted (map number_key [''2. C by D, 1901.png'', ''1000. A by B, 1900.jpg'']) \<and>
   sort_key number_key
     (filter is_image [''cover.jpg'', ''1000. A by B, 1900.jpg'', ''2. C by D, 1901.png''])
     = [''2. C by D, 1901.png'', ''cover.jpg'', ''1000. A by B, 1900.jpg''] \<and>
   rmatch [plus Digit] ''cover.jpg'' = None \<and>
   999 \<le> number_key ''1000. A by B, 1900.jpg''"
proof -
  let ?L = "[''cover.jpg'', ''1000. A by B, 1900.jpg'', ''2. C by D, 1901.png'']"
  let ?S = "[''2. C by D, 1901.png'', ''cover.jpg'', ''1000. A by B, 1900.jpg'']"
  have a: "fs (images_world ?L) ''images'' = Some (Dir ?L)"
    by (simp add: images_world_def)
  have n: "map_option (map e_filename \<circ> images)
      (written_manifest (generate_manifest ''images'' (images_world ?L)))
      = Some [''2. C by D, 1901.png'', ''1000. A by B, 1900.jpg'']"
    by code_simp
  then obtain mf where
    b: "written_manifest (generate_manifest ''images'' (images_world ?L)) = Some mf"
    and f: "map e_filename (images mf) = [''2. C by D, 1901.png'', ''1000. A by B, 1900.jpg'']"
    by auto
  have s: "sort_key number_key (filter is_image ?L) = ?S" by code_simp
  have u: "rmatch [plus Digit] ''cover.jpg'' = None" by code_simp
  note t = ordered_by_number [OF a b, unfolded s]
  from t have "sorted (map number_key (map e_filename (images mf)))" by simp
  then have 1: "sorted (map number_key [''2. C by D, 1901.png'', ''1000. A by B, 1900.jpg''])"
    by (simp only: f)
  from t have "(1::nat) < 2 \<and> 2 < length ?S \<and> rmatch [plus Digit] (?S ! 1) = None
      \<longrightarrow> 999 \<le> number_key (?S ! 2)" by blast
  with u have 2: "999 \<le> number_key ''1000. A by B, 1900.jpg''" by simp
  from a n s u 1 2 show ?thesis by (intro conjI)
qed

text \<open>
  C1 as stated fails: two files with the leading number 1 give entries that are not
  strictly ascending, and a file without a leading number is sorted before the file
  numbered 1000.
\<close>

theorem ordered_by_number_counterexample:
  "map_option (map (number_key \<circ> e_filename) \<circ> images)
     (written_manifest (generate_manifest ''images''
        (images_world [''1. A by B, 1900.jpg'', ''1. C by D, 1901.png''])))
     = Some [1, 1] \<and>
   \<not> sorted_wrt (<) [1, 1 :: int] \<and>
   sort_key number_key (filter is_image [''cover.jpg'', ''1000. A by B, 1900.jpg''])
     = [''cover.jpg'', ''1000. A by B, 1900.jpg'']"
  by code_simp

text \<open>
  C2, as the code has it. The id of every entry is a function of its file name, the value
  of its leading run of digits. The ids are pairwise distinct whenever the leading
  numbers of the listed image files that have one are pairwise distinct.
\<close>

theorem ids_from_filenames:
  assumes "fs w images_dir = Some (Dir listing)"
    and "written_manifest (generate_manifest images_dir w) = Some mf"
  shows "(\<forall>e \<in> set (images mf). e_id e = py_int (takeWhile is_digit (e_filename e))) \<and>
         (distinct (map number_key
            (filter (\<lambda>f. takeWhile is_digit f \<noteq> []) (filter is_image listing)))
          \<longrightarrow> distinct (map e_id (images mf)))"
proof -
  from assms have mf: "mf = built_manifest listing"
    using written_manifest_Dir [of w images_dir mf] by auto
  have "e_id e = py_int (takeWhile is_digit (e_filename e))" if "e \<in> set (images mf)" for e
  proof -
    from that obtain f where "file_entry f = Some e"
      by (auto simp: mf built_manifest_def map_filter_def)
    from file_entry_Some [OF this] show ?thesis by (simp add: number_key_digits)
  qed
  then show ?thesis using distinct_ids [of listing] by (simp add: mf)
qed

theorem ids_from_filenames_witness:
  "fs (images_world [''cover.jpg'', ''7. A by B, 1900.jpg'', ''2. C by D, 1901.png''])
      ''images''
     = Some (Dir [''cover.jpg'', ''7. A by B, 1900.jpg'', ''2. C by D, 1901.png'']) \<and>
   map_option (map e_id \<circ> images)
     (written_manifest (generate_manifest ''images''
        (images_world [''cover.jpg'', ''7. A by B, 1900.jpg'', ''2. C by D, 1901.png''])))
     = Some [2, 7] \<and>
   distinct (map number_key (filter (\<lambda>f. takeWhile is_digit f \<noteq> [])
     (filter is_image [''cover.jpg'', ''7. A by B, 1900.jpg'', ''2. C by D, 1901.png'']))) \<and>
   distinct [2, 7 :: int]"
proof -
  let ?L = "[''cover.jpg'', ''7. A by B, 1900.jpg'', ''2. C by D, 1901.png'']"
  have a: "fs (images_world ?L) ''images'' = Some (Dir ?L)"
    by (simp add: images_world_def)
  have n: "map_option (map e_id \<circ> images)
      (written_manifest (generate_manifest ''images'' (images_world ?L))) = Some [2, 7]"
    by code_simp
  then obtain mf where
    b: "written_manifest (generate_manifest ''images'' (images_world ?L)) = Some mf"
    and i: "map e_id (images mf) = [2, 7]"
    by auto
  have d: "distinct (map number_key (filter (\<lambda>f. takeWhile is_digit f \<noteq> [])
      (filter is_image ?L)))"
    by code_simp
  from ids_from_filenames [OF a b] d have "distinct (map e_id (images mf))" by blast
  then have "distinct [2, 7 :: int]" by (simp only: i)
  with a n d show ?thesis by (intro conjI)
qed

text \<open>
  C2 as stated fails: the listing with the two files \<open>1. A by B, 1900.jpg\<close> and
  \<open>1. C by D, 1901.png\<close> gives a manifest whose ids are 1 and 1.
\<close>

theorem ids_from_filenames_counterexample:
  "map_option (map e_id \<circ> images)
     (written_manifest (generate_manifest ''images''
        (images_world [''1. A by B, 1900.jpg'', ''1. C by D, 1901.png''])))
     = Some [1, 1] \<and>
   \<not> distinct [1, 1 :: int]"
  by code_simp

text \<open>
  C3, as the code has it. For every file name matched by the primary pattern, the year
  token is four decimal digits that follow a comma and zero or more white space
  characters; the parsed year is the value of these four digits, between 0 and 9999.
  More digits may follow the token.
\<close>

theorem year_token:
  assumes "rmatch primary_pattern (fst (splitext f)) = Some m"
  shows "(\<exists>number title artist.
            parse_filename f con = (Some (number, title, artist, py_int (m ! 11)), con)) \<and>
         (\<exists>pre r. fst (splitext f) = pre @ '','' @ m ! 10 @ m ! 11 @ r) \<and>
         list_all is_space (m ! 10) \<and>
         length (m ! 11) = 4 \<and> list_all is_digit (m ! 11) \<and>
         0 \<le> py_int (m ! 11) \<and> py_int (m ! 11) \<le> 9999"
proof -
  from primary_sound [OF assms] obtain d w1 t w2 w3 a w4 y r where
    m: "m = [d, ''.'', w1, t, w2, ''b'', ''y'', w3, a, '','', w4, y]"
    and s: "fst (splitext f) = d @ ''.'' @ w1 @ t @ w2 @ ''by'' @ w3 @ a @ '','' @ w4 @ y @ r"
    and w4: "list_all is_space w4" and y: "length y = 4" "list_all is_digit y"
    by blast
  have 1: "\<exists>number title artist.
      parse_filename f con = (Some (number, title, artist, py_int (m ! 11)), con)"
    using assms by (simp add: parse_filename_def)
  have "fst (splitext f) = (d @ ''.'' @ w1 @ t @ w2 @ ''by'' @ w3 @ a) @ '','' @ w4 @ y @ r"
    using s by simp
  then have "\<exists>pre r. fst (splitext f) = pre @ '','' @ w4 @ y @ r" by blast
  then have 2: "\<exists>pre r. fst (splitext f) = pre @ '','' @ m ! 10 @ m ! 11 @ r"
    by (simp add: m)
  from py_int_bounds [OF y(2)] y(1) have 3: "0 \<le> py_int y" "py_int y \<le> 9999" by simp_all
  from 1 2 3 w4 y show ?thesis by (simp add: m)
qed

theorem year_token_witness:
  "rmatch primary_pattern
     (fst (splitext ''1. The Sun by Giuseppe Pellizza da Volpedo, 1904.jpg'')) =
     Some [''1'', ''.'', '' '', ''The Sun'', '' '', ''b'', ''y'', '' '',
           ''Giuseppe Pellizza da Volpedo'', '','', '' '', ''1904''] \<and>
   list_all is_space '' '' \<and> length ''1904'' = 4 \<and> list_all is_digit ''1904'' \<and>
   0 \<le> py_int ''1904'' \<and> py_int ''1904'' \<le> 9999"
proof -
  let ?f = "''1. The Sun by Giuseppe Pellizza da Volpedo, 1904.jpg''"
  let ?m = "[''1'', ''.'', '' '', ''The Sun'', '' '', ''b'', ''y'', '' '',
           ''Giuseppe Pellizza da Volpedo'', '','', '' '', ''1904'']"
  have a: "rmatch primary_pattern (fst (splitext ?f)) = Some ?m" by code_simp
  from year_token [OF a, of "[]"] a show ?thesis by simp
qed

text \<open>
  C3 as stated fails: in \<open>1. A by B,1904.jpg\<close> the year follows the comma with no
  space between them, and in \<open>1. A by B, 19045.jpg\<close> five digits follow the comma and
  the space, of which the year takes the first four.
\<close>

theorem year_token_counterexample:
  "rmatch primary_pattern (fst (splitext ''1. A by B,1904.jpg'')) =
     Some [''1'', ''.'', '' '', ''A'', '' '', ''b'', ''y'', '' '', ''B'', '','', [], ''1904''] \<and>
   fst (parse_filename ''1. A by B,1904.jpg'' []) = Some (1, Some ''A'', ''B'', 1904) \<and>
   rmatch primary_pattern (fst (splitext ''1. A by B, 19045.jpg'')) =
     Some [''1'', ''.'', '' '', ''A'', '' '', ''b'', ''y'', '' '', ''B'', '','', '' '', ''1904''] \<and>
   fst (parse_filename ''1. A by B, 19045.jpg'' []) = Some (1, Some ''A'', ''B'', 1904)"
  by code_simp

text \<open>
  C4. Parsing the file name \<open>1. The Sun by Giuseppe Pellizza da Volpedo, 1904.jpg\<close>
  gives number 1, title \<open>The Sun\<close>, artist \<open>Giuseppe Pellizza da Volpedo\<close> and year
  1904, and the loop appends for it the entry with id 1, the whole file name, that
  title, artist and year, and the base URL followed by the file name.
\<close>

theorem example_entry:
  "parse_filename ''1. The Sun by Giuseppe Pellizza da Volpedo, 1904.jpg'' con =
     (Some (1, Some ''The Sun'', ''Giuseppe Pellizza da Volpedo'', 1904), con) \<and>
   process_files [''1. The Sun by Giuseppe Pellizza da Volpedo, 1904.jpg''] (mf, con) =
     (mf\<lparr>images := images mf @
        [\<lparr>e_id = 1,
          e_filename = ''1. The Sun by Giuseppe Pellizza da Volpedo, 1904.jpg'',
          e_artist = ''Giuseppe Pellizza da Volpedo'',
          e_year = 1904,
          e_url = ''https://raw.githubusercontent.com/brandonbunt/art365/main/images/1. The Sun by Giuseppe Pellizza da Volpedo, 1904.jpg'',
          e_title = Some ''The Sun''\<rparr>]\<rparr>,
      con @ [Progress 1 (Some ''The Sun'') ''Giuseppe Pellizza da Volpedo'' 1904])"
proof -
  let ?f = "''1. The Sun by Giuseppe Pellizza da Volpedo, 1904.jpg''"
  have p: "fst (parse_filename ?f []) =
     Some (1, Some ''The Sun'', ''Giuseppe Pellizza da Volpedo'', 1904)"
    by code_simp
  have "parse_filename ?f con =
     (Some (1, Some ''The Sun'', ''Giuseppe Pellizza da Volpedo'', 1904), con)"
    using parse_filename_console [of ?f con] parse_filename_Some_console [OF p] p by simp
  moreover have "file_entry ?f = Some \<lparr>e_id = 1, e_filename = ?f,
          e_artist = ''Giuseppe Pellizza da Volpedo'', e_year = 1904,
          e_url = ''https://raw.githubusercontent.com/brandonbunt/art365/main/images/1. The Sun by Giuseppe Pellizza da Volpedo, 1904.jpg'',
          e_title = Some ''The Sun''\<rparr>"
    by (simp add: file_entry_def p base_url_def)
  moreover have "file_msgs ?f = [Progress 1 (Some ''The Sun'') ''Giuseppe Pellizza da Volpedo'' 1904]"
    by (simp add: file_msgs_def p)
  ultimately show ?thesis by (simp add: process_files_eq)
qed

text \<open>
  C5. When the primary pattern matches, the result of \<open>parse_filename\<close> is made of its
  groups alone, whatever the fallback pattern would match; the groups of the fallback
  pattern are used only when the primary pattern does not match. Then the title is
  \<open>None\<close> and the entry the loop appends has no title.
\<close>

theorem fallback_has_no_title:
  "(rmatch primary_pattern (fst (splitext f)) = Some m \<longrightarrow>
      parse_filename f con =
        (Some (py_int (m ! 0), Some (strip (m ! 3)), strip (m ! 8), py_int (m ! 11)), con)) \<and>
   (rmatch primary_pattern (fst (splitext f)) = None \<and>
    rmatch fallback_pattern (fst (splitext f)) = Some m' \<longrightarrow>
      parse_filename f con =
        (Some (py_int (m' ! 0), None, strip (m' ! 3), py_int (m' ! 6)), con) \<and>
      (\<exists>e. images (fst (process_files [f] (mf, con))) = images mf @ [e] \<and>
           e_filename e = f \<and> e_title e = None))"
  by (auto simp: parse_filename_def process_files_eq file_entry_fallback)

theorem fallback_has_no_title_witness:
  "rmatch primary_pattern
     (fst (splitext ''1. The Sun by Giuseppe Pellizza da Volpedo, 1904.jpg'')) =
     Some [''1'', ''.'', '' '', ''The Sun'', '' '', ''b'', ''y'', '' '',
           ''Giuseppe Pellizza da Volpedo'', '','', '' '', ''1904''] \<and>
   parse_filename ''1. The Sun by Giuseppe Pellizza da Volpedo, 1904.jpg'' [] =
     (Some (py_int ''1'', Some (strip ''The Sun''), strip ''Giuseppe Pellizza da Volpedo'',
            py_int ''1904''), []) \<and>
   rmatch primary_pattern (fst (splitext ''42. Artist Name, 1872.jpg'')) = None \<and>
   rmatch fallback_pattern (fst (splitext ''42. Artist Name, 1872.jpg'')) =
     Some [''42'', ''.'', '' '', ''Artist Name'', '','', '' '', ''1872''] \<and>
   parse_filename ''42. Artist Name, 1872.jpg'' [] =
     (Some (py_int ''42'', None, strip ''Artist Name'', py_int ''1872''), []) \<and>
   map e_title (images (fst (process_files [''42. Artist Name, 1872.jpg'']
     (\<lparr>version = ''1.0'', total_images = 0, images = []\<rparr>, [])))) = [None]"
proof -
  let ?f = "''1. The Sun by Giuseppe Pellizza da Volpedo, 1904.jpg''"
  let ?m = "[''1'', ''.'', '' '', ''The Sun'', '' '', ''b'', ''y'', '' '',
           ''Giuseppe Pellizza da Volpedo'', '','', '' '', ''1904'']"
  let ?g = "''42. Artist Name, 1872.jpg''"
  let ?m' = "[''42'', ''.'', '' '', ''Artist Name'', '','', '' '', ''1872'']"
  let ?mf = "\<lparr>version = ''1.0'', total_images = 0, images = []\<rparr>"
  have a: "rmatch primary_pattern (fst (splitext ?f)) = Some ?m" by code_simp
  have b: "rmatch primary_pattern (fst (splitext ?g)) = None" by code_simp
  have c: "rmatch fallback_pattern (fst (splitext ?g)) = Some ?m'" by code_simp
  from fallback_has_no_title [where f = ?f and m = ?m and con = "[]"] a
  have 1: "parse_filename ?f [] =
     (Some (py_int ''1'', Some (strip ''The Sun''), strip ''Giuseppe Pellizza da Volpedo'',
            py_int ''1904''), [])" by simp
  from fallback_has_no_title [where f = ?g and m' = ?m' and con = "[]" and mf = ?mf] b c
  have 2: "parse_filename ?g [] =
       (Some (py_int ''42'', None, strip ''Artist Name'', py_int ''1872''), [])"
    and "\<exists>e. images (fst (process_files [?g] (?mf, []))) = images ?mf @ [e] \<and>
         e_filename e = ?g \<and> e_title e = None" by simp_all
  then have 3: "map e_title (images (fst (process_files [?g] (?mf, [])))) = [None]"
    by auto
  from a b c 1 2 3 show ?thesis by (intro conjI)
qed

text \<open>
  C6. For a file name that matches neither pattern, \<open>parse_filename\<close> prints the
  warning with that name and returns \<open>None\<close>; the loop adds no entry for it and goes on
  with the files after it. If such a file is an image file of the directory and the
  output file can be written, the run returns, the warning is on the console, the
  manifest is written, it has no entry for that file and it has an entry for every
  image file of the listing that does parse.
\<close>

theorem unparsed_is_skipped:
  assumes "rmatch primary_pattern (fst (splitext f)) = None"
    and "rmatch fallback_pattern (fst (splitext f)) = None"
  shows "parse_filename f con = (None, con @ [Warning_could_not_parse f]) \<and>
         process_files (xs @ f # ys) (mf, con) =
           process_files ys (fst (process_files xs (mf, con)),
                             snd (process_files xs (mf, con)) @ [Warning_could_not_parse f]) \<and>
         (fs w images_dir = Some (Dir listing) \<and> \<not> is_dir (fs w output_file) \<and>
          f \<in> set listing \<and> is_image f \<longrightarrow>
          (\<exists>w' mf'. generate_manifest images_dir w = Inr w' \<and>
             Warning_could_not_parse f \<in> set (console w') \<and>
             fs w' output_file = Some (Json_file mf') \<and>
             f \<notin> e_filename ` set (images mf') \<and>
             (\<forall>g \<in> set listing. is_image g \<and> fst (parse_filename g []) \<noteq> None
                \<longrightarrow> g \<in> e_filename ` set (images mf'))))"
proof -
  note fe = file_entry_neither [OF assms]
  have 1: "parse_filename f con = (None, con @ [Warning_could_not_parse f])"
    using assms by (simp add: parse_filename_def)
  have 2: "process_files (xs @ f # ys) (mf, con) =
           process_files ys (fst (process_files xs (mf, con)),
                             snd (process_files xs (mf, con)) @ [Warning_could_not_parse f])"
    by (simp add: process_files_eq fe map_filter_append)
  have 3: "\<exists>w' mf'. generate_manifest images_dir w = Inr w' \<and>
             Warning_could_not_parse f \<in> set (console w') \<and>
             fs w' output_file = Some (Json_file mf') \<and>
             f \<notin> e_filename ` set (images mf') \<and>
             (\<forall>g \<in> set listing. is_image g \<and> fst (parse_filename g []) \<noteq> None
                \<longrightarrow> g \<in> e_filename ` set (images mf'))"
    if l: "fs w images_dir = Some (Dir listing)" "\<not> is_dir (fs w output_file)"
      and f: "f \<in> set listing" "is_image f"
  proof -
    have names: "e_filename ` set (images (built_manifest listing)) =
        {g \<in> set listing. is_image g \<and> file_entry g \<noteq> None}"
      using map_filter_filenames [of "sorted_files listing"]
      by (auto simp add: built_manifest_def sorted_files_def simp flip: set_map)
    have "f \<in> set (sorted_files listing)" using f by (simp add: sorted_files_def)
    then have "Warning_could_not_parse f \<in> set (concat (map file_msgs (sorted_files listing)))"
      using fe(2) by (auto intro!: bexI [of _ f])
    moreover have "f \<notin> e_filename ` set (images (built_manifest listing))"
      unfolding names using fe(1) by simp
    moreover have "g \<in> e_filename ` set (images (built_manifest listing))"
      if "g \<in> set listing" "is_image g" "fst (parse_filename g []) \<noteq> None" for g
      unfolding names using that by (auto simp: file_entry_def split: option.splits)
    ultimately show ?thesis
      unfolding generate_manifest_Dir [OF l] by (intro exI conjI) (rule refl, auto)
  qed
  from 1 2 3 show ?thesis by blast
qed

theorem unparsed_is_skipped_witness:
  "rmatch primary_pattern (fst (splitext ''cover.jpg'')) = None \<and>
   rmatch fallback_pattern (fst (splitext ''cover.jpg'')) = None \<and>
   fs (images_world [''cover.jpg'', ''42. Artist Name, 1872.jpg'']) ''images'' =
     Some (Dir [''cover.jpg'', ''42. Artist Name, 1872.jpg'']) \<and>
   \<not> is_dir (fs (images_world [''cover.jpg'', ''42. Artist Name, 1872.jpg'']) output_file) \<and>
   ''cover.jpg'' \<in> set [''cover.jpg'', ''42. Artist Name, 1872.jpg''] \<and>
   is_image ''cover.jpg'' \<and>
   is_image ''42. Artist Name, 1872.jpg'' \<and>
   fst (parse_filename ''42. Artist Name, 1872.jpg'' []) \<noteq> None \<and>
   parse_filename ''cover.jpg'' [] = (None, [Warning_could_not_parse ''cover.jpg'']) \<and>
   (\<exists>w' mf'. generate_manifest ''images''
        (images_world [''cover.jpg'', ''42. Artist Name, 1872.jpg'']) = Inr w' \<and>
      Warning_could_not_parse ''cover.jpg'' \<in> set (console w') \<and>
      fs w' output_file = Some (Json_file mf') \<and>
      ''cover.jpg'' \<notin> e_filename ` set (images mf') \<and>
      ''42. Artist Name, 1872.jpg'' \<in> e_filename ` set (images mf'))"
proof -
  let ?f = "''cover.jpg''"
  let ?g = "''42. Artist Name, 1872.jpg''"
  let ?L = "[?f, ?g]"
  have a: "rmatch primary_pattern (fst (splitext ?f)) = None" by code_simp
  have b: "rmatch fallback_pattern (fst (splitext ?f)) = None" by code_simp
  have c: "fs (images_world ?L) ''images'' = Some (Dir ?L)" by (simp add: images_world_def)
  have d: "\<not> is_dir (fs (images_world ?L) output_file)"
    by (simp add: images_world_def output_file_def)
  have e: "?f \<in> set ?L" by simp
  have f: "is_image ?f" by code_simp
  have g: "is_image ?g" by code_simp
  have h: "fst (parse_filename ?g []) \<noteq> None" by code_simp
  note t = unparsed_is_skipped [OF a b, where con = "[]" and w = "images_world ?L"
      and images_dir = "''images''" and listing = ?L]
  from t have 1: "parse_filename ?f [] = (None, [Warning_could_not_parse ?f])" by simp
  from t c d e f obtain w' mf' where
    "generate_manifest ''images'' (images_world ?L) = Inr w'"
    "Warning_could_not_parse ?f \<in> set (console w')"
    "fs w' output_file = Some (Json_file mf')"
    "?f \<notin> e_filename ` set (images mf')"
    "\<forall>g \<in> set ?L. is_image g \<and> fst (parse_filename g []) \<noteq> None
        \<longrightarrow> g \<in> e_filename ` set (images mf')"
    by blast
  with g h have "\<exists>w' mf'. generate_manifest ''images'' (images_world ?L) = Inr w' \<and>
      Warning_could_not_parse ?f \<in> set (console w') \<and>
      fs w' output_file = Some (Json_file mf') \<and>
      ?f \<notin> e_filename ` set (images mf') \<and>
      ?g \<in> e_filename ` set (images mf')"
    by (intro exI [of _ w'] exI [of _ mf']) simp
  with a b c d e f g h 1 show ?thesis by (intro conjI)
qed

text \<open>
  C7. If the input directory does not exist, \<open>generate_manifest\<close> prints the two lines
  of the error message and returns; the file system, and with it \<open>manifest.json\<close>, is
  left as it was, and nothing else of the world changes.
\<close>

theorem missing_directory:
  "fs w images_dir = None \<Longrightarrow>
   generate_manifest images_dir w =
     Inr (w\<lparr>console := console w @
              [Error_directory_not_found images_dir, Hint_run_from_repo_root]\<rparr>)"
  by (simp add: generate_manifest_def)

theorem missing_directory_witness:
  "fs (images_world []) ''pictures'' = None \<and>
   generate_manifest ''pictures'' (images_world []) =
     Inr ((images_world [])\<lparr>console := console (images_world []) @
              [Error_directory_not_found ''pictures'', Hint_run_from_repo_root]\<rparr>)"
  using missing_directory [of "images_world []" "''pictures''"]
  by (simp add: images_world_def)

text \<open>
  C8. In every manifest that a run on an existing directory leaves in the output file,
  \<open>total_images\<close> is the length of \<open>images\<close>.
\<close>

theorem total_images_is_length:
  assumes "fs w images_dir \<noteq> None"
    and "written_manifest (generate_manifest images_dir w) = Some mf"
  shows "total_images mf = int (length (images mf))"
proof -
  from written_manifest_Dir [OF assms] obtain listing where "mf = built_manifest listing"
    by blast
  then show ?thesis by (simp add: built_manifest_def)
qed

theorem total_images_is_length_witness:
  "fs (images_world [''cover.jpg'', ''42. Artist Name, 1872.jpg'']) ''images'' \<noteq> None \<and>
   map_option total_images
     (written_manifest (generate_manifest ''images''
        (images_world [''cover.jpg'', ''42. Artist Name, 1872.jpg'']))) = Some 1 \<and>
   map_option (length \<circ> images)
     (written_manifest (generate_manifest ''images''
        (images_world [''cover.jpg'', ''42. Artist Name, 1872.jpg'']))) = Some 1"
proof -
  let ?L = "[''cover.jpg'', ''42. Artist Name, 1872.jpg'']"
  have a: "fs (images_world ?L) ''images'' \<noteq> None" by (simp add: images_world_def)
  have "map_option (length \<circ> images)
      (written_manifest (generate_manifest ''images'' (images_world ?L))) = Some 1"
    by code_simp
  then obtain mf where
    b: "written_manifest (generate_manifest ''images'' (images_world ?L)) = Some mf"
    and l: "length (images mf) = 1" by auto
  from total_images_is_length [OF a b] l have "total_images mf = 1" by simp
  with a b l show ?thesis by simp
qed

text \<open>
  C9. When \<open>parse_filename\<close> succeeds, by either pattern, its number is the value of
  the file name's leading run of digits, which is not empty; the sort key of the file
  is the same number, and it is the id of the entry the loop appends.
\<close>

theorem id_is_sort_key:
  assumes "fst (parse_filename f con) = Some (number, title, artist, year)"
  shows "takeWhile is_digit f \<noteq> [] \<and> number = py_int (takeWhile is_digit f) \<and>
         number_key f = number \<and>
         map e_id (images (fst (process_files [f] (mf, con)))) = map e_id (images mf) @ [number]"
proof -
  from parse_number [OF assms] have n: "takeWhile is_digit f \<noteq> []"
    "number = py_int (takeWhile is_digit f)" by simp_all
  have "fst (parse_filename f []) = Some (number, title, artist, year)"
    using assms parse_filename_console [of f con] by (metis fst_conv)
  then have "map e_id (List.map_filter file_entry [f]) = [number]"
    by (simp add: file_entry_def)
  with n show ?thesis by (simp add: number_key_digits process_files_eq)
qed

theorem id_is_sort_key_witness:
  "fst (parse_filename ''42. Artist Name, 1872.jpg'' []) =
     Some (42, None, ''Artist Name'', 1872) \<and>
   takeWhile is_digit ''42. Artist Name, 1872.jpg'' = ''42'' \<and>
   py_int ''42'' = 42 \<and>
   number_key ''42. Artist Name, 1872.jpg'' = 42 \<and>
   map e_id (images (fst (process_files [''42. Artist Name, 1872.jpg'']
     (\<lparr>version = ''1.0'', total_images = 0, images = []\<rparr>, [])))) = [42]"
proof -
  let ?g = "''42. Artist Name, 1872.jpg''"
  have a: "fst (parse_filename ?g []) = Some (42, None, ''Artist Name'', 1872)"
    by code_simp
  have b: "takeWhile is_digit ?g = ''42''" by code_simp
  from id_is_sort_key [OF a, of "\<lparr>version = ''1.0'', total_images = 0, images = []\<rparr>"] a b
  show ?thesis by simp
qed

text \<open>
  C10. There is a file name the primary pattern matches with a title group of white
  space only, and for every such file name the entry the loop appends has no title.
\<close>

theorem blank_title_is_omitted:
  "(\<exists>f m. rmatch primary_pattern (fst (splitext f)) = Some m \<and>
          m ! 3 \<noteq> [] \<and> list_all is_space (m ! 3)) \<and>
   (\<forall>f m mf con.
      rmatch primary_pattern (fst (splitext f)) = Some m \<and> list_all is_space (m ! 3) \<longrightarrow>
      (\<exists>e. images (fst (process_files [f] (mf, con))) = images mf @ [e] \<and>
           e_filename e = f \<and> e_title e = None))"
proof -
  have "rmatch primary_pattern (fst (splitext ''1.  by X, 1900.jpg'')) =
      Some [''1'', ''.'', [], '' '', '' '', ''b'', ''y'', '' '', ''X'', '','', '' '', ''1900'']"
    by code_simp
  moreover have "list_all is_space '' ''" by code_simp
  ultimately have "\<exists>f m. rmatch primary_pattern (fst (splitext f)) = Some m \<and>
          m ! 3 \<noteq> [] \<and> list_all is_space (m ! 3)"
    by (intro exI [of _ "''1.  by X, 1900.jpg''"] exI [of _ "[''1'', ''.'', [], '' '', '' '', ''b'', ''y'', '' '', ''X'', '','', '' '', ''1900'']"]) simp
  then show ?thesis
    by (auto simp: process_files_eq file_entry_primary strip_all_space)
qed

theorem blank_title_is_omitted_witness:
  "rmatch primary_pattern (fst (splitext ''1.  by X, 1900.jpg'')) =
     Some [''1'', ''.'', [], '' '', '' '', ''b'', ''y'', '' '', ''X'', '','', '' '', ''1900''] \<and>
   list_all is_space '' '' \<and>
   map e_title (images (fst (process_files [''1.  by X, 1900.jpg'']
     (\<lparr>version = ''1.0'', total_images = 0, images = []\<rparr>, [])))) = [None]"
proof -
  let ?f = "''1.  by X, 1900.jpg''"
  let ?m = "[''1'', ''.'', [], '' '', '' '', ''b'', ''y'', '' '', ''X'', '','', '' '', ''1900'']"
  let ?mf = "\<lparr>version = ''1.0'', total_images = 0, images = []\<rparr>"
  have a: "rmatch primary_pattern (fst (splitext ?f)) = Some ?m" by code_simp
  have b: "list_all is_space '' ''" by code_simp
  have "rmatch primary_pattern (fst (splitext ?f)) = Some ?m \<and> list_all is_space (?m ! 3)"
    using a b by simp
  with blank_title_is_omitted
  have "\<exists>e. images (fst (process_files [?f] (?mf, []))) = images ?mf @ [e] \<and>
           e_filename e = ?f \<and> e_title e = None" by blast
  then have "map e_title (images (fst (process_files [?f] (?mf, [])))) = [None]" by auto
  with a b show ?thesis by (intro conjI)
qed

end
